theory Spec2Isabelle
  imports Main
begin

section \<open>The Editors component (src/renderer/components/editors.tsx)\<close>

text \<open>
  The component keeps the shared Monaco options object in its React state, pushes a
  toggled copy of it to every mounted editor, runs editor actions on the focused
  editor and loads the Monaco engine once it is needed. The model below follows the
  TypeScript method by method. Everything a method does besides returning is made
  explicit: JavaScript objects live in a store of addressed objects (an options object
  refers to its nested \<open>minimap\<close> object by address), calls into Monaco and
  the console are recorded in a trace, and a thrown exception is an \<open>error\<close> value.
\<close>

subsection \<open>JavaScript values and the object store\<close>

type_synonym addr = nat

datatype jsval = JUndefined | JNull | JBool bool | JStr string | JNum int | JRef addr

text \<open>An object is its own properties in insertion order; the store maps an address
  (the position in the list) to the object allocated there.\<close>

type_synonym obj = "(string \<times> jsval) list"

definition obj_at :: "obj list \<Rightarrow> addr \<Rightarrow> obj" where
  "obj_at h a = (if a < length h then h ! a else [])"

text \<open>\<open>o[s] = v\<close>: an existing property keeps its place, a new one is added last.\<close>

fun set_prop :: "(string \<times> 'a) list \<Rightarrow> string \<Rightarrow> 'a \<Rightarrow> (string \<times> 'a) list" where
  "set_prop [] s v = [(s, v)]"
| "set_prop ((k, x) # ps) s v = (if k = s then (k, v) # ps else (k, x) # set_prop ps s v)"

text \<open>The module constant \<open>defaultMonacoOptions\<close> (lines 21-26) is allocated when the
  module loads: the options object at address 0, its \<open>minimap\<close> object at address 1.\<close>

definition defaultMonacoOptions :: addr where
  "defaultMonacoOptions = 0"

definition module_store :: "obj list" where
  "module_store =
     [[(''minimap'', JRef 1), (''wordWrap'', JStr ''on'')],
      [(''enabled'', JBool False)]]"

text \<open>Reading an object graph out of the store as a value, to a given depth.\<close>

datatype jstree =
  TUndefined | TNull | TBool bool | TStr string | TNum int
  | TObj "(string \<times> jstree) list" | TDeeper

fun snapshot :: "nat \<Rightarrow> obj list \<Rightarrow> jsval \<Rightarrow> jstree" where
  "snapshot n h JUndefined = TUndefined"
| "snapshot n h JNull = TNull"
| "snapshot n h (JBool b) = TBool b"
| "snapshot n h (JStr s) = TStr s"
| "snapshot n h (JNum i) = TNum i"
| "snapshot 0 h (JRef a) = TDeeper"
| "snapshot (Suc n) h (JRef a) = TObj (map (\<lambda>p. (fst p, snapshot n h (snd p))) (obj_at h a))"

text \<open>The value read for a primitive, at any depth and in any store.\<close>

definition leaf_tree :: "jsval \<Rightarrow> jstree" where
  "leaf_tree v = snapshot 0 [] v"

text \<open>The value \<open>t\<close> with the value at a path of property names replaced by \<open>r\<close>, and
  nothing else changed; below the depth that was read there is nothing to replace.\<close>

fun tree_set :: "string list \<Rightarrow> jstree \<Rightarrow> jstree \<Rightarrow> jstree" where
  "tree_set [] r t = r"
| "tree_set (s # ss) r (TObj ps) =
     TObj (set_prop ps s
            (tree_set ss r (case map_of ps s of None \<Rightarrow> TUndefined | Some c \<Rightarrow> c)))"
| "tree_set (s # ss) r t = t"

subsection \<open>Editors, actions, errors and the trace\<close>

datatype EditorId = main | renderer | html

datatype engine = Engine nat

text \<open>A Monaco editor action (\<open>IEditorAction\<close>): its id and what \<open>isSupported()\<close> answers.\<close>

record action =
  action_id :: string
  isSupported :: bool

text \<open>A mounted Monaco editor, as far as the component uses it: whether it has the text
  focus, what \<open>getAction\<close> resolves (\<open>None\<close> is JavaScript's \<open>null\<close>), and whether
  \<open>updateOptions\<close> throws (the widget can be transiently unready).\<close>

record editor =
  hasTextFocus :: bool
  getAction :: "string \<Rightarrow> action option"
  updateOptions_throws :: bool

datatype error =
  TypeError
  | UnresolvedOptionPath
  | EditorError EditorId

datatype event =
  ConsoleLog string
  | ConsoleWarn string
  | Run EditorId string
  | UpdateOptions EditorId addr
  | UpdateOptionsThrew EditorId addr
  | SetState addr
  | LoaderCall
  | ActivateTheme engine

text \<open>
  The state the methods read and write: the object store, the registry
  \<open>window.ElectronFiddle.editors\<close> (absent, or one entry per pane, \<open>None\<close> for a pane
  whose editor is not mounted), \<open>window.ElectronFiddle.app.monaco\<close>, the component's
  \<open>this.state\<close> (\<open>monaco\<close>, \<open>isMounted\<close>, \<open>monacoOptions\<close>), the number of
  \<open>loadMonaco\<close> calls suspended at their \<open>await\<close>, and the trace of outside calls.
\<close>

record world =
  heap :: "obj list"
  editors :: "(EditorId \<times> editor option) list option"
  app_monaco :: "engine option"
  st_monaco :: "engine option"
  isMounted :: bool
  monacoOptions :: addr
  loads_in_flight :: nat
  trace :: "event list"

definition emit :: "event \<Rightarrow> world \<Rightarrow> world" where
  "emit e w = w\<lparr>trace := trace w @ [e]\<rparr>"

subsection \<open>executeCommand (lines 107-119)\<close>

text \<open>
  Modelled from the spec: \<open>getFocusedEditor\<close> (utils/focused-editor) is not among the
  sources. Section 4.5 of the specification: the registry's handles are asked in registry
  order which one reports focus, the first match wins, and no match is no editor. The
  model also returns the pane the editor is registered under, to name it in the trace.
\<close>

fun first_focused :: "(EditorId \<times> editor option) list \<Rightarrow> (EditorId \<times> editor) option" where
  "first_focused [] = None"
| "first_focused ((k, None) # es) = first_focused es"
| "first_focused ((k, Some e) # es) =
     (if hasTextFocus e then Some (k, e) else first_focused es)"

text \<open>Modelled from the spec: \<open>getFocusedEditor\<close> (utils/focused-editor, not among the
  sources), section 4.5: the first handle of the registry that reports focus; a registry
  with no handles has no focused editor.\<close>

definition getFocusedEditor :: "world \<Rightarrow> (EditorId \<times> editor) option" where
  "getFocusedEditor w = (case editors w of None \<Rightarrow> None | Some es \<Rightarrow> first_focused es)"

text \<open>
  The method returns nothing; the model returns the exception that escapes it, if any,
  and the world after it. The template literal of line 113 reads \<open>command.id\<close> before
  line 115 tests \<open>command\<close>, so a \<open>null\<close> action throws a TypeError there.
\<close>

definition executeCommand :: "string \<Rightarrow> world \<Rightarrow> error option \<times> world" where
  "executeCommand commandId w =
     (case getFocusedEditor w of
        None \<Rightarrow> (None, w)
      | Some (key, ed) \<Rightarrow>
          (case getAction ed commandId of
             None \<Rightarrow> (Some TypeError, w)
           | Some command \<Rightarrow>
               (let w1 = emit (ConsoleLog (action_id command)) w
                in if isSupported command
                   then (None, emit (Run key (action_id command)) w1)
                   else (None, w1))))"

subsection \<open>toggleEditorOption (lines 121-151)\<close>

text \<open>\<open>path.split('.')\<close>: the segments between the dots; an empty path is one empty
  segment.\<close>

fun split_path :: "string \<Rightarrow> string list" where
  "split_path [] = [[]]"
| "split_path (c # cs) =
     (if c = CHR ''.'' then [] # split_path cs
      else (case split_path cs of
              [] \<Rightarrow> [[c]]
            | seg # segs \<Rightarrow> (c # seg) # segs))"

text \<open>
  Modelled from the spec: \<open>getAtPath\<close> and \<open>setAtPath\<close> (utils/js-path) are not among
  the sources. Section 4.4 of the specification: the current value is resolved at the
  dotted path, and a path that does not resolve fails; the new snapshot has that single
  path replaced by structural copy, with the original left untouched (also section 5:
  copy-on-write, holders of the previous snapshot are unaffected).
  \<open>getAtPath\<close> follows the segments from the object it is given and fails when a
  segment is not a property of the object reached.
\<close>

fun getAtPath_from :: "obj list \<Rightarrow> string list \<Rightarrow> jsval \<Rightarrow> error + jsval" where
  "getAtPath_from h [] v = Inr v"
| "getAtPath_from h (s # ss) (JRef a) =
     (case map_of (obj_at h a) s of
        None \<Rightarrow> Inl UnresolvedOptionPath
      | Some v \<Rightarrow> getAtPath_from h ss v)"
| "getAtPath_from h (s # ss) v = Inl UnresolvedOptionPath"

text \<open>Modelled from the spec: \<open>getAtPath(path, obj)\<close> (utils/js-path, not among the
  sources), section 4.4: the value at the dotted path, or the failure to resolve it.\<close>

definition getAtPath :: "string \<Rightarrow> obj list \<Rightarrow> jsval \<Rightarrow> error + jsval" where
  "getAtPath path h ob = getAtPath_from h (split_path path) ob"

text \<open>Modelled from the spec: the traversal of \<open>setAtPath\<close> (utils/js-path, not among
  the sources), sections 4.4 and 5: structural copy along the path. Line 131 discards the
  result, so the write goes through the object it is given (\<open>newOptions\<close>, the fresh
  copy of line 128). A nested object on the path is not written: it is copied to a new
  object, the reference to it in its (already new) parent is replaced by the reference
  to the copy, and the traversal goes on in the copy. The last segment is assigned in the
  object reached.\<close>

fun setAtPath_from :: "obj list \<Rightarrow> string list \<Rightarrow> jsval \<Rightarrow> jsval \<Rightarrow> error + obj list" where
  "setAtPath_from h [] ob v = Inl UnresolvedOptionPath"
| "setAtPath_from h [s] (JRef a) v =
     (if a < length h then Inr (h[a := set_prop (h ! a) s v]) else Inl UnresolvedOptionPath)"
| "setAtPath_from h (s # ss) (JRef a) v =
     (case map_of (obj_at h a) s of
        Some (JRef b) \<Rightarrow>
          (let c = length h;
               h1 = h @ [obj_at h b];
               h2 = h1[a := set_prop (obj_at h a) s (JRef c)]
           in setAtPath_from h2 ss (JRef c) v)
      | _ \<Rightarrow> Inl UnresolvedOptionPath)"
| "setAtPath_from h (s # ss) ob v = Inl UnresolvedOptionPath"

text \<open>Modelled from the spec: \<open>setAtPath(path, obj, value)\<close> (utils/js-path, not among
  the sources), section 4.4: the store after the single path is replaced in \<open>obj\<close>.\<close>

definition setAtPath :: "string \<Rightarrow> obj list \<Rightarrow> jsval \<Rightarrow> jsval \<Rightarrow> error + obj list" where
  "setAtPath path h ob v = setAtPath_from h (split_path path) ob v"

text \<open>
  Modelled from the spec: \<open>toggleMonaco\<close> (utils/toggle-monaco) is not among the sources.
  Section 4.4 of the specification: a boolean is negated, an enum value cycles to its
  next defined value, and any other leaf value is not togglable. The table of defined
  enum values is not in the sources either and is the parameter \<open>next_value\<close>.
\<close>

fun toggleMonaco :: "(string \<Rightarrow> string option) \<Rightarrow> jsval \<Rightarrow> error + jsval" where
  "toggleMonaco next_value (JBool b) = Inr (JBool (\<not> b))"
| "toggleMonaco next_value (JStr s) =
     (case next_value s of
        None \<Rightarrow> Inl UnresolvedOptionPath
      | Some s' \<Rightarrow> Inr (JStr s'))"
| "toggleMonaco next_value v = Inl UnresolvedOptionPath"

text \<open>
  Lines 127-131. The spread \<open>{ ...monacoOptions }\<close> allocates one new object holding
  the own properties of the current options object: a property whose value is an object
  (\<open>minimap\<close>) is copied as the same reference, and \<open>setAtPath\<close> replaces it on the
  path it writes. The result is the address of \<open>newOptions\<close>, or the exception thrown
  on the way.
\<close>

definition computeNewOptions ::
  "(string \<Rightarrow> string option) \<Rightarrow> string \<Rightarrow> world \<Rightarrow> (error + addr) \<times> world" where
  "computeNewOptions next_value path w =
     (let newOptions = length (heap w);
          w1 = w\<lparr>heap := heap w @ [obj_at (heap w) (monacoOptions w)]\<rparr>
      in case getAtPath path (heap w1) (JRef newOptions) of
           Inl e \<Rightarrow> (Inl e, w1)
         | Inr currentSetting \<Rightarrow>
             (case toggleMonaco next_value currentSetting of
                Inl e \<Rightarrow> (Inl e, w1)
              | Inr v \<Rightarrow>
                  (case setAtPath path (heap w1) (JRef newOptions) v of
                     Inl e \<Rightarrow> (Inl e, w1)
                   | Inr h2 \<Rightarrow> (Inr newOptions, w1\<lparr>heap := h2\<rparr>))))"

text \<open>
  Lines 133-141: \<open>Object.keys(editors).forEach\<close>. Each key is looked up in the
  registry again; a \<open>null\<close> entry is skipped. An exception thrown by
  \<open>updateOptions\<close> leaves the loop at once.
\<close>

fun forEach_key ::
  "(EditorId \<times> editor option) list \<Rightarrow> addr \<Rightarrow> EditorId list \<Rightarrow> world \<Rightarrow> error option \<times> world" where
  "forEach_key es newOptions [] w = (None, w)"
| "forEach_key es newOptions (key # keys) w =
     (case map_of es key of
        Some (Some ed) \<Rightarrow>
          (if updateOptions_throws ed
           then (Some (EditorError key), emit (UpdateOptionsThrew key newOptions) w)
           else forEach_key es newOptions keys (emit (UpdateOptions key newOptions) w))
      | _ \<Rightarrow> forEach_key es newOptions keys w)"

text \<open>The method: the guard of lines 122-124, the \<open>try\<close> block, and the \<open>catch\<close>
  that warns and returns \<open>false\<close>. \<open>setState\<close> replaces \<open>this.state.monacoOptions\<close>
  by the reference to \<open>newOptions\<close>.\<close>

definition toggleEditorOption ::
  "(string \<Rightarrow> string option) \<Rightarrow> string \<Rightarrow> world \<Rightarrow> bool \<times> world" where
  "toggleEditorOption next_value path w =
     (case editors w of
        None \<Rightarrow> (False, w)
      | Some es \<Rightarrow>
          (case computeNewOptions next_value path w of
             (Inl e, w1) \<Rightarrow> (False, emit (ConsoleWarn path) w1)
           | (Inr newOptions, w1) \<Rightarrow>
               (case forEach_key es newOptions (map fst es) w1 of
                  (Some e, w2) \<Rightarrow> (False, emit (ConsoleWarn path) w2)
                | (None, w2) \<Rightarrow>
                    (True, emit (SetState newOptions) (w2\<lparr>monacoOptions := newOptions\<rparr>)))))"

text \<open>A pane of the registry is mounted when its entry holds an editor.\<close>

definition mounted :: "(EditorId \<times> editor option) list \<Rightarrow> EditorId \<Rightarrow> bool" where
  "mounted es key = (case map_of es key of Some (Some ed) \<Rightarrow> True | _ \<Rightarrow> False)"

text \<open>No object of the store refers to an address outside it.\<close>

definition ref_ok :: "obj list \<Rightarrow> jsval \<Rightarrow> bool" where
  "ref_ok h v = (case v of JRef a \<Rightarrow> a < length h | _ \<Rightarrow> True)"

definition closed_store :: "obj list \<Rightarrow> bool" where
  "closed_store h = list_all (list_all (\<lambda>p. ref_ok h (snd p))) h"

subsection \<open>loadMonaco (lines 225-244)\<close>

text \<open>
  An \<open>async\<close> method on the single-threaded event loop: it runs until its
  \<open>await\<close> and is resumed later, when the loader's promise settles. With
  \<open>app.monaco\<close> set, \<open>app.monaco || await loader()\<close> does not reach the
  \<open>await\<close> and the method runs to its end in the same turn.

  \<open>loadMonaco_rest\<close> is lines 230-243 with \<open>monaco\<close> bound. The constructor has set
  \<open>this.state\<close> before it calls the method, so \<open>!this.state\<close> is false;
  an unmounted component has its whole state replaced (lines 235-238).
\<close>

definition loadMonaco_rest :: "engine \<Rightarrow> world \<Rightarrow> world" where
  "loadMonaco_rest monaco w =
     (let w1 = (if app_monaco w = None then w\<lparr>app_monaco := Some monaco\<rparr> else w);
          w2 = (if \<not> isMounted w1
                then w1\<lparr>st_monaco := Some monaco, isMounted := False,
                        monacoOptions := defaultMonacoOptions\<rparr>
                else w1\<lparr>st_monaco := Some monaco\<rparr>)
      in emit (ActivateTheme monaco) w2)"

text \<open>A call of the method, up to its end or to its \<open>await\<close> on \<open>loader()\<close>.\<close>

definition loadMonaco :: "world \<Rightarrow> world" where
  "loadMonaco w =
     (case app_monaco w of
        Some monaco \<Rightarrow> loadMonaco_rest monaco w
      | None \<Rightarrow> (emit LoaderCall w)\<lparr>loads_in_flight := loads_in_flight w + 1\<rparr>)"

text \<open>The loader's promise of one suspended call is fulfilled with an engine, or is
  rejected (the rejection ends that call; the constructor ignores the promise).\<close>

definition loader_resolves :: "engine \<Rightarrow> world \<Rightarrow> world" where
  "loader_resolves monaco w =
     (if loads_in_flight w = 0 then w
      else loadMonaco_rest monaco (w\<lparr>loads_in_flight := loads_in_flight w - 1\<rparr>))"

definition loader_rejects :: "world \<Rightarrow> world" where
  "loader_rejects w = w\<lparr>loads_in_flight := loads_in_flight w - 1\<rparr>"

datatype turn = CallLoadMonaco | LoaderResolves engine | LoaderRejects

fun run :: "turn list \<Rightarrow> world \<Rightarrow> world" where
  "run [] w = w"
| "run (CallLoadMonaco # ts) w = run ts (loadMonaco w)"
| "run (LoaderResolves monaco # ts) w = run ts (loader_resolves monaco w)"
| "run (LoaderRejects # ts) w = run ts (loader_rejects w)"

definition loader_calls :: "world \<Rightarrow> nat" where
  "loader_calls w = count_list (trace w) LoaderCall"

subsection \<open>The layout reaction (lines 49-54, 97-99, 216-218)\<close>

text \<open>
  \<open>onChange\<close> stores the arrangement react-mosaic hands it; the component never looks
  into it, so it is a type parameter here. The mobx reaction of lines 51-54 calls
  \<open>updateEditorLayout()\<close> each time the stored arrangement changes, until
  \<open>componentWillUnmount\<close> disposes of it. Time is a clock of ticks.
\<close>

record 'a layout =
  mosaicArrangement :: 'a
  reaction_live :: bool
  clock :: nat
  pending :: "nat option"
  cancelled :: nat
  written :: "'a list"

text \<open>
  Modelled from the spec: \<open>updateEditorLayout\<close> (utils/editor-layout) is not among
  the sources; line 50 only says that it is debounced. Section 4.6 of the
  specification: each change schedules a write after a fixed settle delay; a change
  that arrives before the delay has elapsed cancels the pending write and schedules a
  new one; the write that fires stores the latest arrangement. \<open>pending\<close> is the
  time at which the scheduled write is due.
\<close>

definition updateEditorLayout :: "nat \<Rightarrow> 'a layout \<Rightarrow> 'a layout" where
  "updateEditorLayout delay s =
     s\<lparr>pending := Some (clock s + delay),
       cancelled := (case pending s of None \<Rightarrow> cancelled s | Some due \<Rightarrow> cancelled s + 1)\<rparr>"

text \<open>Modelled from the spec: the timer of the debounced \<open>updateEditorLayout\<close>
  (utils/editor-layout, not among the sources), section 4.6: time passes until \<open>t\<close>,
  and a pending write that is due by then fires and stores the latest arrangement.\<close>

definition elapse :: "nat \<Rightarrow> 'a layout \<Rightarrow> 'a layout" where
  "elapse t s =
     (case pending s of
        None \<Rightarrow> s\<lparr>clock := max (clock s) t\<rparr>
      | Some due \<Rightarrow>
          (if due \<le> t
           then s\<lparr>clock := max (clock s) t, pending := None,
                  written := written s @ [mosaicArrangement s]\<rparr>
           else s\<lparr>clock := max (clock s) t\<rparr>))"

definition onChange :: "nat \<Rightarrow> 'a \<Rightarrow> 'a layout \<Rightarrow> 'a layout" where
  "onChange delay currentNode s =
     (let s1 = s\<lparr>mosaicArrangement := currentNode\<rparr>
      in if reaction_live s1 then updateEditorLayout delay s1 else s1)"

definition componentWillUnmount :: "'a layout \<Rightarrow> 'a layout" where
  "componentWillUnmount s = s\<lparr>reaction_live := False\<rparr>"

subsection \<open>Concrete editors and worlds\<close>

definition plain_editor :: editor where
  "plain_editor =
     \<lparr>hasTextFocus = False, getAction = (\<lambda>c. None), updateOptions_throws = False\<rparr>"

definition undo_editor :: editor where
  "undo_editor =
     \<lparr>hasTextFocus = True,
      getAction = (\<lambda>c. if c = ''undo'' then Some \<lparr>action_id = ''undo'', isSupported = True\<rparr>
                        else None),
      updateOptions_throws = False\<rparr>"

definition unready_editor :: editor where
  "unready_editor =
     \<lparr>hasTextFocus = False, getAction = (\<lambda>c. None), updateOptions_throws = True\<rparr>"

text \<open>The world right after line 61 of the constructor, for a given registry.\<close>

definition constructed :: "(EditorId \<times> editor option) list option \<Rightarrow> world" where
  "constructed registry =
     \<lparr>heap = module_store, editors = registry, app_monaco = None, st_monaco = None,
      isMounted = False, monacoOptions = defaultMonacoOptions, loads_in_flight = 0,
      trace = []\<rparr>"

section \<open>Properties\<close>

subsection \<open>executeCommand\<close>

lemma first_focused_Some:
  "first_focused es = Some (k, e) \<Longrightarrow> (k, Some e) \<in> set es \<and> hasTextFocus e"
  by (induction es rule: first_focused.induct) (auto split: if_splits)

lemma first_focused_None:
  "first_focused es = None \<Longrightarrow> (k, Some e) \<in> set es \<Longrightarrow> \<not> hasTextFocus e"
  by (induction es rule: first_focused.induct) (auto split: if_splits)

lemma executeCommand_no_focus:
  "getFocusedEditor w = None \<Longrightarrow> executeCommand commandId w = (None, w)"
  by (simp add: executeCommand_def)

lemma executeCommand_unsupported:
  "getFocusedEditor w = Some (key, ed) \<Longrightarrow> getAction ed commandId = Some command \<Longrightarrow>
   \<not> isSupported command \<Longrightarrow>
   executeCommand commandId w = (None, emit (ConsoleLog (action_id command)) w)"
  by (simp add: executeCommand_def)

lemma executeCommand_unresolved:
  "getFocusedEditor w = Some (key, ed) \<Longrightarrow> getAction ed commandId = None \<Longrightarrow>
   executeCommand commandId w = (Some TypeError, w)"
  by (simp add: executeCommand_def)

text \<open>
  Claim C1. \<open>execute(commandId)\<close> is meant to be a silent no-op when no editor has
  focus, when the focused editor resolves no action, or when the action is unsupported.
  The first and the last case are \<open>executeCommand_no_focus\<close> and
  \<open>executeCommand_unsupported\<close> above. In the second case the code throws
  (\<open>executeCommand_unresolved\<close>): with \<open>renderer\<close> focused and no action \<open>redo\<close> defined there,
  \<open>command\<close> is \<open>null\<close> and line 113 reads \<open>command.id\<close> before line 115
  tests \<open>command\<close>; the TypeError escapes the method.
\<close>

theorem executeCommand_null_action_throws:
  "executeCommand ''redo'' (constructed (Some [(main, Some plain_editor), (renderer, Some undo_editor)]))
   = (Some TypeError, constructed (Some [(main, Some plain_editor), (renderer, Some undo_editor)]))"
  by (simp add: executeCommand_def getFocusedEditor_def constructed_def plain_editor_def undo_editor_def)

text \<open>
  Claim C6. When the focused editor resolves \<open>commandId\<close> to an action that reports
  itself supported, \<open>executeCommand\<close> logs one line and runs that action once, on the
  focused editor and on no other, and nothing is thrown; the method has no result.
\<close>

theorem executeCommand_runs_once:
  assumes "getFocusedEditor w = Some (key, ed)"
    and "getAction ed commandId = Some command"
    and "isSupported command"
  shows "executeCommand commandId w =
           (None, w\<lparr>trace := trace w @ [ConsoleLog (action_id command), Run key (action_id command)]\<rparr>)"
  using assms by (simp add: executeCommand_def emit_def)

text \<open>
  Claim C6, witness: \<open>execute('undo')\<close> while \<open>renderer\<close> has the focus and defines a
  supported \<open>undo\<close>; \<open>main\<close> is not called.
\<close>

theorem executeCommand_runs_once_witness:
  "getFocusedEditor (constructed (Some [(main, Some plain_editor), (renderer, Some undo_editor)]))
     = Some (renderer, undo_editor)
   \<and> getAction undo_editor ''undo'' = Some \<lparr>action_id = ''undo'', isSupported = True\<rparr>
   \<and> trace (snd (executeCommand ''undo''
        (constructed (Some [(main, Some plain_editor), (renderer, Some undo_editor)]))))
     = [ConsoleLog ''undo'', Run renderer ''undo'']
   \<and> fst (executeCommand ''undo''
        (constructed (Some [(main, Some plain_editor), (renderer, Some undo_editor)]))) = None"
proof -
  let ?w = "constructed (Some [(main, Some plain_editor), (renderer, Some undo_editor)])"
  have f: "getFocusedEditor ?w = Some (renderer, undo_editor)"
    by (simp add: getFocusedEditor_def constructed_def plain_editor_def undo_editor_def)
  have a: "getAction undo_editor ''undo'' = Some \<lparr>action_id = ''undo'', isSupported = True\<rparr>"
    by (simp add: undo_editor_def)
  have s: "isSupported \<lparr>action_id = ''undo'', isSupported = True\<rparr>" by simp
  have t: "trace ?w = []" by (simp add: constructed_def)
  show ?thesis
    using executeCommand_runs_once [OF f a s] f a t by simp
qed

subsection \<open>toggleEditorOption: the store, the copy and the loop\<close>

lemma split_path_not_Nil: "split_path p \<noteq> []"
  by (induction p) (auto split: list.splits)

lemma obj_at_append:
  "a < length h \<Longrightarrow> obj_at (h @ [c]) a = obj_at h a"
  by (simp add: obj_at_def nth_append)

lemma obj_at_new: "obj_at (h @ [c]) (length h) = c"
  by (simp add: obj_at_def)

lemma closed_store_prop:
  "closed_store h \<Longrightarrow> a < length h \<Longrightarrow> map_of (obj_at h a) s = Some v \<Longrightarrow> ref_ok h v"
proof -
  assume c: "closed_store h" and a: "a < length h" and m: "map_of (obj_at h a) s = Some v"
  from c a have "list_all (\<lambda>p. ref_ok h (snd p)) (h ! a)"
    by (simp add: closed_store_def list_all_length)
  moreover from m a have "(s, v) \<in> set (h ! a)"
    by (auto simp: obj_at_def dest: map_of_SomeD)
  ultimately show "ref_ok h v"
    by (auto simp: list_all_iff)
qed

lemma getAtPath_from_append:
  "closed_store h \<Longrightarrow> ref_ok h v \<Longrightarrow> getAtPath_from (h @ [c]) ss v = getAtPath_from h ss v"
proof (induction h ss v rule: getAtPath_from.induct)
  case (2 h s ss a)
  then have a: "a < length h" by (simp add: ref_ok_def)
  show ?case
  proof (cases "map_of (obj_at h a) s")
    case None
    with a show ?thesis by (simp add: obj_at_append)
  next
    case (Some v')
    with 2 a have "ref_ok h v'" by (auto intro: closed_store_prop)
    with 2 Some a show ?thesis by (simp add: obj_at_append)
  qed
qed simp_all

lemma getAtPath_copy:
  assumes "closed_store h" and "a < length h"
  shows "getAtPath path (h @ [obj_at h a]) (JRef (length h)) = getAtPath path h (JRef a)"
proof -
  obtain s ss where sp: "split_path path = s # ss"
    using split_path_not_Nil by (cases "split_path path") auto
  show ?thesis
  proof (cases "map_of (obj_at h a) s")
    case None
    then show ?thesis by (simp add: getAtPath_def sp obj_at_new)
  next
    case (Some v)
    with assms have "ref_ok h v" by (auto intro: closed_store_prop)
    with assms Some show ?thesis
      by (simp add: getAtPath_def sp obj_at_new getAtPath_from_append)
  qed
qed

lemma computeNewOptions_frame:
  "computeNewOptions nv path w = (r, w1) \<Longrightarrow>
     trace w1 = trace w \<and> monacoOptions w1 = monacoOptions w \<and> editors w1 = editors w"
  by (auto simp: computeNewOptions_def Let_def split: sum.splits)

lemma forEach_key_frame:
  "forEach_key es n ks w = (r, w') \<Longrightarrow>
     monacoOptions w' = monacoOptions w \<and> heap w' = heap w \<and> editors w' = editors w"
  by (induction es n ks w rule: forEach_key.induct)
     (auto simp: emit_def split: option.splits if_splits)

lemma forEach_key_ok:
  "\<forall>k\<in>set ks. \<forall>ed. map_of es k = Some (Some ed) \<longrightarrow> \<not> updateOptions_throws ed \<Longrightarrow>
   forEach_key es n ks w =
     (None, w\<lparr>trace := trace w @ map (\<lambda>k. UpdateOptions k n) (filter (mounted es) ks)\<rparr>)"
proof (induction ks arbitrary: w)
  case Nil
  then show ?case by simp
next
  case (Cons k ks)
  have ih: "\<And>w'. forEach_key es n ks w' =
     (None, w'\<lparr>trace := trace w' @ map (\<lambda>k. UpdateOptions k n) (filter (mounted es) ks)\<rparr>)"
    using Cons.IH Cons.prems by simp
  show ?case
  proof (cases "map_of es k")
    case None
    then have "\<not> mounted es k" by (simp add: mounted_def)
    with None show ?thesis by (simp add: ih)
  next
    case (Some entry)
    show ?thesis
    proof (cases entry)
      case None
      with Some have "\<not> mounted es k" by (simp add: mounted_def)
      with None Some show ?thesis by (simp add: ih)
    next
      case (Some ed)
      with \<open>map_of es k = Some entry\<close> have m: "map_of es k = Some (Some ed)" by simp
      then have "\<not> updateOptions_throws ed" using Cons.prems by simp
      moreover from m have "mounted es k" by (simp add: mounted_def)
      ultimately show ?thesis using m by (simp add: ih emit_def)
    qed
  qed
qed

lemma forEach_key_append:
  "forEach_key es n (ks1 @ ks2) w =
     (case forEach_key es n ks1 w of
        (Some e, w') \<Rightarrow> (Some e, w')
      | (None, w') \<Rightarrow> forEach_key es n ks2 w')"
  by (induction ks1 arbitrary: w) (auto split: option.splits)

lemma forEach_key_throws:
  assumes "\<forall>k\<in>set before. \<forall>ed. map_of es k = Some (Some ed) \<longrightarrow> \<not> updateOptions_throws ed"
    and "map_of es key = Some (Some ed)" and "updateOptions_throws ed"
  shows "forEach_key es n (before @ key # rest) w =
     (Some (EditorError key),
      w\<lparr>trace := trace w @ map (\<lambda>k. UpdateOptions k n) (filter (mounted es) before)
                  @ [UpdateOptionsThrew key n]\<rparr>)"
  using assms(2,3) by (simp add: forEach_key_append forEach_key_ok [OF assms(1)] emit_def)

lemma toggleEditorOption_false_keeps_state:
  "\<not> fst (toggleEditorOption nv path w) \<Longrightarrow>
   monacoOptions (snd (toggleEditorOption nv path w)) = monacoOptions w"
proof (cases "editors w")
  case None
  then show ?thesis by (simp add: toggleEditorOption_def)
next
  case (Some es)
  assume f: "\<not> fst (toggleEditorOption nv path w)"
  obtain r w1 where c: "computeNewOptions nv path w = (r, w1)"
    by (cases "computeNewOptions nv path w")
  then have m1: "monacoOptions w1 = monacoOptions w"
    by (auto dest: computeNewOptions_frame)
  show ?thesis
  proof (cases r)
    case (Inl e)
    with Some c m1 show ?thesis by (simp add: toggleEditorOption_def emit_def)
  next
    case (Inr n)
    obtain r2 w2 where l: "forEach_key es n (map fst es) w1 = (r2, w2)"
      by (cases "forEach_key es n (map fst es) w1")
    then have m2: "monacoOptions w2 = monacoOptions w1"
      by (auto dest: forEach_key_frame)
    from f Some c Inr l obtain e where "r2 = Some e"
      by (cases r2) (simp_all add: toggleEditorOption_def)
    with Some c Inr l m1 m2 show ?thesis
      by (simp add: toggleEditorOption_def emit_def)
  qed
qed


lemma snapshot_append:
  "closed_store h \<Longrightarrow> ref_ok h v \<Longrightarrow> snapshot n (h @ [c]) v = snapshot n h v"
proof (induction n h v rule: snapshot.induct)
  case (7 n h a)
  then have a: "a < length h" by (simp add: ref_ok_def)
  have "snapshot n (h @ [c]) (snd p) = snapshot n h (snd p)" if "p \<in> set (obj_at h a)" for p
  proof -
    from 7(2) a have "list_all (\<lambda>p. ref_ok h (snd p)) (h ! a)"
      by (simp add: closed_store_def list_all_length)
    with that a have "ref_ok h (snd p)" by (simp add: obj_at_def list_all_iff)
    with 7 that show ?thesis by simp
  qed
  with a show ?case by (simp add: obj_at_append)
qed simp_all

lemmas eval_defs =
  toggleEditorOption_def computeNewOptions_def getAtPath_def setAtPath_def
  constructed_def module_store_def defaultMonacoOptions_def obj_at_def emit_def
  plain_editor_def undo_editor_def unready_editor_def

text \<open>
  Claim C9. When the registry object \<open>window.ElectronFiddle.editors\<close> is absent,
  \<open>toggleEditorOption\<close> returns \<open>false\<close> and nothing else happens: no object is
  allocated, no editor is called, nothing is logged, and the state is the same.
\<close>

theorem toggleEditorOption_no_registry:
  "editors w = None \<Longrightarrow> toggleEditorOption next_value path w = (False, w)"
  by (simp add: toggleEditorOption_def)

text \<open>
  Claim C9, witness: the constructed component with no registry object.
\<close>

theorem toggleEditorOption_no_registry_witness:
  "editors (constructed None) = None
   \<and> toggleEditorOption Map.empty ''minimap.enabled'' (constructed None) = (False, constructed None)"
proof -
  have e: "editors (constructed None) = None" by (simp add: constructed_def)
  show ?thesis using toggleEditorOption_no_registry [OF e] e by simp
qed

subsection \<open>toggleEditorOption: copy on write\<close>

lemma obj_at_prefix: "a < length h \<Longrightarrow> obj_at (h @ zs) a = obj_at h a"
  by (simp add: obj_at_def nth_append)

lemma closed_store_obj:
  "closed_store h \<Longrightarrow> a < length h \<Longrightarrow> list_all (\<lambda>p. ref_ok h (snd p)) (h ! a)"
  by (simp add: closed_store_def list_all_length)

lemma snapshot_prefix:
  "closed_store h \<Longrightarrow> ref_ok h v \<Longrightarrow> snapshot d (h @ zs) v = snapshot d h v"
proof (induction d h v rule: snapshot.induct)
  case (7 n h a)
  then have a: "a < length h" by (simp add: ref_ok_def)
  have "snapshot n (h @ zs) (snd p) = snapshot n h (snd p)" if "p \<in> set (obj_at h a)" for p
  proof -
    from 7(2) a have "list_all (\<lambda>p. ref_ok h (snd p)) (h ! a)" by (rule closed_store_obj)
    with that a have "ref_ok h (snd p)" by (simp add: obj_at_def list_all_iff)
    with 7 that show ?thesis by simp
  qed
  with a show ?case by (simp add: obj_at_prefix)
qed simp_all

lemma snapshot_entries:
  assumes "closed_store h0" and "list_all (\<lambda>p. ref_ok h0 (snd p)) ob"
  shows "map (\<lambda>p. (fst p, snapshot d (h0 @ zs) (snd p))) ob
           = map (\<lambda>p. (fst p, snapshot d h0 (snd p))) ob"
  using assms by (auto simp: list_all_iff snapshot_prefix)

lemma map_set_prop:
  "map (\<lambda>p. (fst p, f (snd p))) (set_prop ps s x)
     = set_prop (map (\<lambda>p. (fst p, f (snd p))) ps) s (f x)"
  by (induction ps s x rule: set_prop.induct) auto

lemma map_of_entries:
  "map_of (map (\<lambda>p. (fst p, f (snd p))) ps) s = map_option f (map_of ps s)"
  by (induction ps) auto

lemma tree_set_deeper: "segs \<noteq> [] \<Longrightarrow> tree_set segs r TDeeper = TDeeper"
  by (cases segs) simp_all

lemma snapshot_Suc_ref:
  "snapshot (Suc d) h (JRef a) = TObj (map (\<lambda>p. (fst p, snapshot d h (snd p))) (obj_at h a))"
  by simp

text \<open>An object whose values point into h0, stored anywhere in an extension of h0, reads as
  its entries read in h0.\<close>

lemma snapshot_fresh:
  assumes "closed_store h0" and "list_all (\<lambda>p. ref_ok h0 (snd p)) ob"
    and "obj_at (h0 @ zs) a = ob"
  shows "snapshot (Suc d) (h0 @ zs) (JRef a) = TObj (map (\<lambda>p. (fst p, snapshot d h0 (snd p))) ob)"
  using assms by (simp add: snapshot_entries)

lemma toggleMonaco_leaf:
  "toggleMonaco nv cur = Inr new \<Longrightarrow> snapshot d h new = leaf_tree new"
  by (cases "(nv, cur)" rule: toggleMonaco.cases) (auto simp: leaf_tree_def split: option.splits)


lemma upd_mid: "(h0 @ ys @ oa # rest)[length h0 + length ys := x] = h0 @ ys @ x # rest"
  by (simp add: list_update_append)

lemma obj_at_mid: "obj_at (h0 @ ys @ oa # rest) (length h0 + length ys) = oa"
  by (simp add: obj_at_def nth_append)

lemma list_all_set_prop:
  "list_all P ps \<Longrightarrow> P (s, x) \<Longrightarrow> list_all P (set_prop ps s x)"
  by (induction ps s x rule: set_prop.induct) auto

lemma prim_leaf: "\<forall>a. v \<noteq> JRef a \<Longrightarrow> snapshot d h v = leaf_tree v"
  by (cases v) (auto simp: leaf_tree_def)

lemma prim_ref_ok: "\<forall>a. v \<noteq> JRef a \<Longrightarrow> ref_ok h v"
  by (cases v) (auto simp: ref_ok_def)

lemma snapshot_copy_of:
  assumes "closed_store h0" and "b < length h0" and "obj_at (h0 @ zs) c = h0 ! b"
  shows "snapshot d (h0 @ zs) (JRef c) = snapshot d h0 (JRef b)"
proof (cases d)
  case 0
  then show ?thesis by simp
next
  case (Suc d')
  from assms(1,2) have "list_all (\<lambda>p. ref_ok h0 (snd p)) (h0 ! b)" by (rule closed_store_obj)
  then have "snapshot (Suc d') (h0 @ zs) (JRef c)
      = TObj (map (\<lambda>p. (fst p, snapshot d' h0 (snd p))) (h0 ! b))"
    using assms(3) by (rule snapshot_fresh [OF assms(1)])
  with Suc assms(2) show ?thesis by (simp add: obj_at_def)
qed

lemma setAtPath_from_copy:
  assumes C: "closed_store h0" and prim: "\<forall>a. v \<noteq> JRef a"
  shows "list_all (\<lambda>p. ref_ok h0 (snd p)) oa \<Longrightarrow>
         setAtPath_from (h0 @ ys @ [oa]) segs (JRef (length h0 + length ys)) v = Inr h' \<Longrightarrow>
         (\<exists>zs. h' = h0 @ ys @ zs) \<and>
         (\<forall>d. snapshot d h' (JRef (length h0 + length ys))
               = tree_set segs (leaf_tree v)
                   (snapshot d (h0 @ ys @ [oa]) (JRef (length h0 + length ys))))"
proof (induction segs arbitrary: ys oa h')
  case Nil
  then show ?case by simp
next
  case (Cons s rest)
  let ?a = "length h0 + length ys"
  let ?H = "h0 @ ys @ [oa]"
  note V = Cons.prems(1)
  note S = Cons.prems(2)
  note IH = Cons.IH
  have oa: "obj_at ?H ?a = oa" by (rule obj_at_mid)
  have la: "?a < length ?H" by simp
  have na: "?H ! ?a = oa" by (simp add: nth_append)
  have old: "snapshot (Suc d) ?H (JRef ?a) = TObj (map (\<lambda>p. (fst p, snapshot d h0 (snd p))) oa)" for d
    by (rule snapshot_fresh [OF C V oa])
  show ?case
  proof (cases rest)
    case Nil
    from S Nil la na have h': "h' = h0 @ ys @ [set_prop oa s v]"
      by (simp add: upd_mid del: length_append)
    have V': "list_all (\<lambda>p. ref_ok h0 (snd p)) (set_prop oa s v)"
      using V by (rule list_all_set_prop) (simp add: prim_ref_ok [OF prim])
    have "snapshot d h' (JRef ?a) = tree_set (s # rest) (leaf_tree v) (snapshot d ?H (JRef ?a))" for d
    proof (cases d)
      case 0
      then show ?thesis by simp
    next
      case (Suc d')
      have "obj_at h' ?a = set_prop oa s v" unfolding h' by (rule obj_at_mid)
      then have "snapshot (Suc d') h' (JRef ?a)
          = TObj (map (\<lambda>p. (fst p, snapshot d' h0 (snd p))) (set_prop oa s v))"
        unfolding h' by (rule snapshot_fresh [OF C V'])
      then show ?thesis
        using Suc Nil
        by (simp add: old map_set_prop prim_leaf [OF prim] del: snapshot.simps(7))
    qed
    with h' show ?thesis by blast
  next
    case (Cons s2 ss)
    from S Cons oa obtain b where look: "map_of oa s = Some (JRef b)"
      by (auto simp del: length_append split: option.splits jsval.splits)
    then have "(s, JRef b) \<in> set oa" by (rule map_of_SomeD)
    with V have b: "b < length h0" by (auto simp: list_all_iff ref_ok_def)
    let ?ob = "h0 ! b"
    let ?oa' = "set_prop oa s (JRef (Suc ?a))"
    have ob: "obj_at ?H b = ?ob" using b by (simp add: obj_at_def nth_append)
    have Vb: "list_all (\<lambda>p. ref_ok h0 (snd p)) ?ob" using C b by (rule closed_store_obj)
    have h2: "(?H @ [?ob])[?a := ?oa'] = h0 @ (ys @ [?oa']) @ [?ob]"
      using upd_mid [of h0 ys oa "[?ob]" ?oa'] by simp
    from S Cons look oa ob
    have S1: "setAtPath_from ((?H @ [?ob])[?a := ?oa']) rest (JRef (Suc ?a)) v = Inr h'"
      by (simp add: Let_def)
    have idx: "length h0 + length (ys @ [?oa']) = Suc ?a" by simp
    have S': "setAtPath_from (h0 @ (ys @ [?oa']) @ [?ob]) rest
                (JRef (length h0 + length (ys @ [?oa']))) v = Inr h'"
      unfolding idx using S1 unfolding h2 .
    from IH [OF Vb S'] obtain zs where
      h': "h' = h0 @ (ys @ [?oa']) @ zs" and
      sub: "\<And>d. snapshot d h' (JRef (Suc ?a))
                = tree_set rest (leaf_tree v)
                    (snapshot d (h0 @ (ys @ [?oa']) @ [?ob]) (JRef (Suc ?a)))"
      unfolding idx by blast
    have cp: "snapshot d (h0 @ (ys @ [?oa']) @ [?ob]) (JRef (Suc ?a)) = snapshot d h0 (JRef b)" for d
    proof -
      have "obj_at (h0 @ (ys @ [?oa']) @ [?ob]) (Suc ?a) = ?ob"
        using obj_at_mid [of h0 "ys @ [?oa']" ?ob "[]"] by simp
      then show ?thesis by (rule snapshot_copy_of [OF C b])
    qed
    have "snapshot d h' (JRef ?a) = tree_set (s # rest) (leaf_tree v) (snapshot d ?H (JRef ?a))" for d
    proof (cases d)
      case 0
      then show ?thesis by simp
    next
      case (Suc d')
      have o: "obj_at h' ?a = ?oa'"
        unfolding h' using obj_at_mid [of h0 ys ?oa' zs] by simp
      have e: "map (\<lambda>p. (fst p, snapshot d' h' (snd p))) oa
                 = map (\<lambda>p. (fst p, snapshot d' h0 (snd p))) oa"
        unfolding h' by (rule snapshot_entries [OF C V])
      have "snapshot (Suc d') h' (JRef ?a)
              = TObj (set_prop (map (\<lambda>p. (fst p, snapshot d' h0 (snd p))) oa) s
                        (snapshot d' h' (JRef (Suc ?a))))"
        by (simp add: o map_set_prop e del: length_append)
      also have "snapshot d' h' (JRef (Suc ?a)) = tree_set rest (leaf_tree v) (snapshot d' h0 (JRef b))"
        by (simp only: sub cp)
      finally show ?thesis
        using Suc look by (simp add: old map_of_entries del: length_append snapshot.simps(7))
    qed
    with h' show ?thesis by auto
  qed
qed


lemma toggleMonaco_prim: "toggleMonaco nv cur = Inr new \<Longrightarrow> \<forall>a. new \<noteq> JRef a"
  by (cases "(nv, cur)" rule: toggleMonaco.cases) (auto split: option.splits)

lemma computeNewOptions_Inr:
  "computeNewOptions nv path w = (Inr n, w1) \<Longrightarrow>
   n = length (heap w) \<and>
   (\<exists>cur new.
      getAtPath path (heap w @ [obj_at (heap w) (monacoOptions w)]) (JRef n) = Inr cur
      \<and> toggleMonaco nv cur = Inr new
      \<and> setAtPath path (heap w @ [obj_at (heap w) (monacoOptions w)]) (JRef n) new
          = Inr (heap w1))"
  by (auto simp: computeNewOptions_def Let_def split: sum.splits)

lemma toggleEditorOption_True:
  "toggleEditorOption nv path w = (True, w') \<Longrightarrow>
   \<exists>n w1. computeNewOptions nv path w = (Inr n, w1) \<and> heap w' = heap w1 \<and> monacoOptions w' = n"
proof -
  assume t: "toggleEditorOption nv path w = (True, w')"
  then obtain es where es: "editors w = Some es"
    by (cases "editors w") (simp_all add: toggleEditorOption_def)
  obtain r w1 where c: "computeNewOptions nv path w = (r, w1)"
    by (cases "computeNewOptions nv path w")
  with t es obtain n where r: "r = Inr n"
    by (cases r) (simp_all add: toggleEditorOption_def)
  obtain r2 w2 where l: "forEach_key es n (map fst es) w1 = (r2, w2)"
    by (cases "forEach_key es n (map fst es) w1")
  then have h: "heap w2 = heap w1" by (auto dest: forEach_key_frame)
  from t es c r l have "r2 = None" and "w' = emit (SetState n) (w2\<lparr>monacoOptions := n\<rparr>)"
    by (cases r2; simp add: toggleEditorOption_def)+
  with h c r show ?thesis by (simp add: emit_def)
qed

text \<open>
  Claim C2. A successful \<open>toggleEditorOption(path)\<close> publishes a new options object:
  its address did not exist before the call; every object that existed before the call,
  the previous options object and its nested objects among them, is unchanged, so the
  previous snapshot reads the same at every depth; and the new snapshot reads as the
  previous one with the value at \<open>path\<close>, and nothing else, replaced by the toggled
  value.
\<close>

theorem toggleEditorOption_copy_on_write:
  assumes "toggleEditorOption nv path w = (True, w')"
    and "closed_store (heap w)"
    and "monacoOptions w < length (heap w)"
  shows "monacoOptions w' = length (heap w)
         \<and> take (length (heap w)) (heap w') = heap w
         \<and> (\<forall>d. snapshot d (heap w') (JRef (monacoOptions w))
                = snapshot d (heap w) (JRef (monacoOptions w)))
         \<and> (\<exists>cur new.
               getAtPath path (heap w) (JRef (monacoOptions w)) = Inr cur
               \<and> toggleMonaco nv cur = Inr new
               \<and> (\<forall>d. snapshot d (heap w') (JRef (monacoOptions w'))
                      = tree_set (split_path path) (leaf_tree new)
                          (snapshot d (heap w) (JRef (monacoOptions w)))))"
proof -
  let ?h0 = "heap w"
  let ?a0 = "monacoOptions w"
  let ?oa = "obj_at ?h0 ?a0"
  from assms(1) obtain n w1 where c: "computeNewOptions nv path w = (Inr n, w1)"
    and hw: "heap w' = heap w1" and mw: "monacoOptions w' = n"
    by (auto dest: toggleEditorOption_True)
  from c obtain cur new where n: "n = length ?h0"
    and g: "getAtPath path (?h0 @ [?oa]) (JRef n) = Inr cur"
    and tg: "toggleMonaco nv cur = Inr new"
    and st: "setAtPath path (?h0 @ [?oa]) (JRef n) new = Inr (heap w1)"
    by (auto dest: computeNewOptions_Inr)
  have oa: "?oa = ?h0 ! ?a0" using assms(3) by (simp add: obj_at_def)
  have V: "list_all (\<lambda>p. ref_ok ?h0 (snd p)) ?oa"
    unfolding oa using assms(2,3) by (rule closed_store_obj)
  have prim: "\<forall>a. new \<noteq> JRef a" using tg by (rule toggleMonaco_prim)
  from st have st': "setAtPath_from (?h0 @ [] @ [?oa]) (split_path path)
                       (JRef (length ?h0 + length ([] :: obj list))) new = Inr (heap w1)"
    by (simp add: setAtPath_def n)
  from setAtPath_from_copy [OF assms(2) prim V st'] obtain zs where
    ext: "heap w1 = ?h0 @ zs" and
    rd: "\<And>d. snapshot d (heap w1) (JRef (length ?h0))
            = tree_set (split_path path) (leaf_tree new) (snapshot d (?h0 @ [?oa]) (JRef (length ?h0)))"
    by auto
  have cp: "snapshot d (?h0 @ [?oa]) (JRef (length ?h0)) = snapshot d ?h0 (JRef ?a0)" for d
  proof -
    have "obj_at (?h0 @ [?oa]) (length ?h0) = ?h0 ! ?a0" by (simp add: obj_at_new oa)
    then show ?thesis by (rule snapshot_copy_of [OF assms(2,3)])
  qed
  have g0: "getAtPath path ?h0 (JRef ?a0) = Inr cur"
    using g getAtPath_copy [OF assms(2,3), of path] by (simp add: n)
  have "ref_ok ?h0 (JRef ?a0)" using assms(3) by (simp add: ref_ok_def)
  then have old: "snapshot d (heap w') (JRef ?a0) = snapshot d ?h0 (JRef ?a0)" for d
    unfolding hw ext by (rule snapshot_prefix [OF assms(2)])
  have new: "snapshot d (heap w') (JRef (monacoOptions w'))
               = tree_set (split_path path) (leaf_tree new) (snapshot d ?h0 (JRef ?a0))" for d
    by (simp add: hw mw n rd cp)
  have tk: "take (length ?h0) (heap w') = ?h0" by (simp add: hw ext)
  from mw n tk old g0 tg new show ?thesis by blast
qed

text \<open>
  Claim C2, witness: \<open>minimap.enabled\<close> on the constructed component. The new options
  object (address 2) refers to a new \<open>minimap\<close> object (address 3); the previous one
  (address 0) still reads \<open>enabled = false\<close>.
\<close>

theorem toggleEditorOption_copy_on_write_witness:
  "toggleEditorOption Map.empty ''minimap.enabled'' (constructed (Some [(main, Some plain_editor)]))
     = (True,
        (constructed (Some [(main, Some plain_editor)]))
          \<lparr>heap := [[(''minimap'', JRef 1), (''wordWrap'', JStr ''on'')],
                    [(''enabled'', JBool False)],
                    [(''minimap'', JRef 3), (''wordWrap'', JStr ''on'')],
                    [(''enabled'', JBool True)]],
           monacoOptions := 2,
           trace := [UpdateOptions main 2, SetState 2]\<rparr>)
   \<and> closed_store (heap (constructed (Some [(main, Some plain_editor)])))
   \<and> monacoOptions (constructed (Some [(main, Some plain_editor)])) = 0
   \<and> snapshot 2 (heap (snd (toggleEditorOption Map.empty ''minimap.enabled''
         (constructed (Some [(main, Some plain_editor)]))))) (JRef 0)
       = TObj [(''minimap'', TObj [(''enabled'', TBool False)]), (''wordWrap'', TStr ''on'')]
   \<and> snapshot 2 (heap (snd (toggleEditorOption Map.empty ''minimap.enabled''
         (constructed (Some [(main, Some plain_editor)]))))) (JRef 2)
       = TObj [(''minimap'', TObj [(''enabled'', TBool True)]), (''wordWrap'', TStr ''on'')]"
proof -
  let ?w = "constructed (Some [(main, Some plain_editor)])"
  let ?w' = "?w\<lparr>heap := [[(''minimap'', JRef 1), (''wordWrap'', JStr ''on'')],
                    [(''enabled'', JBool False)],
                    [(''minimap'', JRef 3), (''wordWrap'', JStr ''on'')],
                    [(''enabled'', JBool True)]],
           monacoOptions := 2,
           trace := [UpdateOptions main 2, SetState 2]\<rparr>"
  have t: "toggleEditorOption Map.empty ''minimap.enabled'' ?w = (True, ?w')"
    by (simp add: eval_defs)
  have c: "closed_store (heap ?w)"
    by (simp add: constructed_def closed_store_def module_store_def ref_ok_def)
  have m: "monacoOptions ?w = 0" by (simp add: constructed_def defaultMonacoOptions_def)
  have l: "monacoOptions ?w < length (heap ?w)"
    by (simp add: constructed_def module_store_def defaultMonacoOptions_def)
  have s0: "snapshot 2 (heap ?w) (JRef 0)
      = TObj [(''minimap'', TObj [(''enabled'', TBool False)]), (''wordWrap'', TStr ''on'')]"
    by (simp add: constructed_def module_store_def obj_at_def numeral_2_eq_2)
  have g: "getAtPath ''minimap.enabled'' (heap ?w) (JRef 0) = Inr (JBool False)"
    by (simp add: eval_defs)
  note th = toggleEditorOption_copy_on_write [OF t c l]
  from th have old: "snapshot 2 (heap ?w') (JRef (monacoOptions ?w)) = snapshot 2 (heap ?w) (JRef (monacoOptions ?w))"
    by blast
  from th obtain cur new where
    "getAtPath ''minimap.enabled'' (heap ?w) (JRef (monacoOptions ?w)) = Inr cur"
    and tg: "toggleMonaco Map.empty cur = Inr new"
    and new: "snapshot 2 (heap ?w') (JRef (monacoOptions ?w'))
               = tree_set (split_path ''minimap.enabled'') (leaf_tree new)
                   (snapshot 2 (heap ?w) (JRef (monacoOptions ?w)))"
    by blast
  with g m have "cur = JBool False" by simp
  with tg have n: "new = JBool True" by simp
  have new': "snapshot 2 (heap ?w') (JRef 2)
      = TObj [(''minimap'', TObj [(''enabled'', TBool True)]), (''wordWrap'', TStr ''on'')]"
    using new by (simp add: n m s0 leaf_tree_def)
  have old': "snapshot 2 (heap ?w') (JRef 0)
      = TObj [(''minimap'', TObj [(''enabled'', TBool False)]), (''wordWrap'', TStr ''on'')]"
    using old by (simp add: m s0)
  from t c m old' new' show ?thesis by simp
qed

subsection \<open>toggleEditorOption: failures, the scenario and unmounted panes\<close>

text \<open>
  Claim C3, as stated, fails: with \<open>main\<close> throwing in \<open>updateOptions\<close>, the exception
  leaves the \<open>forEach\<close> of lines 133-141 and reaches the \<open>catch\<close> of line 146; the
  remaining editor \<open>renderer\<close> never receives the new options.
\<close>

theorem toggleEditorOption_stops_at_failure:
  "fst (toggleEditorOption Map.empty ''minimap.enabled''
          (constructed (Some [(main, Some unready_editor), (renderer, Some plain_editor)]))) = False
   \<and> trace (snd (toggleEditorOption Map.empty ''minimap.enabled''
          (constructed (Some [(main, Some unready_editor), (renderer, Some plain_editor)]))))
       = [UpdateOptionsThrew main 2, ConsoleWarn ''minimap.enabled'']
   \<and> UpdateOptions renderer 2 \<notin> set (trace (snd (toggleEditorOption Map.empty ''minimap.enabled''
          (constructed (Some [(main, Some unready_editor), (renderer, Some plain_editor)])))))"
  by (simp add: eval_defs)

text \<open>
  Claim C3, amended. An exception thrown by \<open>updateOptions\<close> of one editor is caught and
  logged, and it ends the pass: the mounted editors before it in registry order have
  received the new options, the editors after it receive nothing, and the method returns
  \<open>false\<close>. Whenever the method returns \<open>false\<close>, \<open>this.state.monacoOptions\<close> is
  still the reference it was before the call.
\<close>

theorem toggleEditorOption_handle_failure:
  "(editors w = Some es \<and> computeNewOptions nv path w = (Inr n, w1)
      \<and> map fst es = before @ key # rest
      \<and> (\<forall>k\<in>set before. \<forall>e. map_of es k = Some (Some e) \<longrightarrow> \<not> updateOptions_throws e)
      \<and> map_of es key = Some (Some ed) \<and> updateOptions_throws ed
    \<longrightarrow> toggleEditorOption nv path w =
          (False, w1\<lparr>trace := trace w @ map (\<lambda>k. UpdateOptions k n) (filter (mounted es) before)
                              @ [UpdateOptionsThrew key n, ConsoleWarn path]\<rparr>))
   \<and> (\<not> fst (toggleEditorOption nv path w)
    \<longrightarrow> monacoOptions (snd (toggleEditorOption nv path w)) = monacoOptions w)"
proof (intro conjI impI)
  assume a: "editors w = Some es \<and> computeNewOptions nv path w = (Inr n, w1)
      \<and> map fst es = before @ key # rest
      \<and> (\<forall>k\<in>set before. \<forall>e. map_of es k = Some (Some e) \<longrightarrow> \<not> updateOptions_throws e)
      \<and> map_of es key = Some (Some ed) \<and> updateOptions_throws ed"
  then have t: "trace w1 = trace w" by (auto dest: computeNewOptions_frame)
  from a have "forEach_key es n (map fst es) w1 =
     (Some (EditorError key),
      w1\<lparr>trace := trace w1 @ map (\<lambda>k. UpdateOptions k n) (filter (mounted es) before)
                  @ [UpdateOptionsThrew key n]\<rparr>)"
    by (simp add: forEach_key_throws)
  with a t show "toggleEditorOption nv path w =
          (False, w1\<lparr>trace := trace w @ map (\<lambda>k. UpdateOptions k n) (filter (mounted es) before)
                              @ [UpdateOptionsThrew key n, ConsoleWarn path]\<rparr>)"
    by (simp add: toggleEditorOption_def emit_def)
next
  assume "\<not> fst (toggleEditorOption nv path w)"
  then show "monacoOptions (snd (toggleEditorOption nv path w)) = monacoOptions w"
    by (rule toggleEditorOption_false_keeps_state)
qed


text \<open>
  Claim C3, witness: \<open>renderer\<close> throws between \<open>main\<close> and \<open>html\<close>.
\<close>

theorem toggleEditorOption_handle_failure_witness:
  "toggleEditorOption [''on'' \<mapsto> ''off''] ''wordWrap''
     (constructed (Some [(main, Some plain_editor), (renderer, Some unready_editor),
                         (html, Some plain_editor)]))
   = (False,
      (constructed (Some [(main, Some plain_editor), (renderer, Some unready_editor),
                          (html, Some plain_editor)]))
        \<lparr>heap := module_store @ [[(''minimap'', JRef 1), (''wordWrap'', JStr ''off'')]],
         trace := [UpdateOptions main 2, UpdateOptionsThrew renderer 2, ConsoleWarn ''wordWrap'']\<rparr>)
   \<and> monacoOptions (snd (toggleEditorOption [''on'' \<mapsto> ''off''] ''wordWrap''
        (constructed (Some [(main, Some plain_editor), (renderer, Some unready_editor),
                            (html, Some plain_editor)])))) = 0"
proof -
  let ?es = "[(main, Some plain_editor), (renderer, Some unready_editor), (html, Some plain_editor)]"
  let ?w = "constructed (Some ?es)"
  let ?w1 = "?w\<lparr>heap := module_store @ [[(''minimap'', JRef 1), (''wordWrap'', JStr ''off'')]]\<rparr>"
  have c: "computeNewOptions [''on'' \<mapsto> ''off''] ''wordWrap'' ?w = (Inr 2, ?w1)"
    by (simp add: eval_defs)
  have e: "editors ?w = Some ?es" and t: "trace ?w = []" and m: "monacoOptions ?w = 0"
    by (simp_all add: constructed_def defaultMonacoOptions_def)
  have k: "map fst ?es = [main] @ renderer # [html]" by simp
  have b: "\<forall>k\<in>set [main]. \<forall>e. map_of ?es k = Some (Some e) \<longrightarrow> \<not> updateOptions_throws e"
    by (simp add: plain_editor_def)
  have r: "map_of ?es renderer = Some (Some unready_editor)" by simp
  have u: "updateOptions_throws unready_editor" by (simp add: unready_editor_def)
  have f: "mounted ?es main" by (simp add: mounted_def)
  show ?thesis
    using toggleEditorOption_handle_failure
      [where w = ?w and es = ?es and nv = "[''on'' \<mapsto> ''off'']" and path = "''wordWrap''"
         and n = 2 and ?w1.0 = ?w1 and before = "[main]" and key = renderer and rest = "[html]"
         and ed = unready_editor]
      c e k b r u
    by (simp add: t m f)
qed

text \<open>
  Claim C4, as stated, fails where the registry object is absent: the guard of lines
  122-124 returns \<open>false\<close> before the \<open>try\<close> block, so a path that does not resolve
  is answered with \<open>false\<close> and no warning.
\<close>

theorem toggleEditorOption_no_registry_no_warning:
  "getAtPath ''no.such.option'' (heap (constructed None)) (JRef (monacoOptions (constructed None)))
     = Inl UnresolvedOptionPath
   \<and> toggleEditorOption Map.empty ''no.such.option'' (constructed None) = (False, constructed None)
   \<and> ConsoleWarn ''no.such.option''
       \<notin> set (trace (snd (toggleEditorOption Map.empty ''no.such.option'' (constructed None))))"
  by (simp add: eval_defs)

text \<open>
  Claim C4, amended. When the registry object exists and \<open>path\<close> does not resolve in the
  current options object (a segment is missing, or the value reached is not togglable),
  \<open>toggleEditorOption\<close> returns \<open>false\<close>, logs one warning and calls no editor; the
  state still refers to the same options object, no object that existed before the call
  has changed (the store only gained the discarded copy), and the options read from the
  state are the same at every depth.
\<close>

theorem toggleEditorOption_unresolved_path:
  assumes "editors w = Some es"
    and "closed_store (heap w)"
    and "monacoOptions w < length (heap w)"
    and "getAtPath path (heap w) (JRef (monacoOptions w)) = Inl e
         \<or> (\<exists>v. getAtPath path (heap w) (JRef (monacoOptions w)) = Inr v
                 \<and> toggleMonaco nv v = Inl e)"
  shows "toggleEditorOption nv path w =
           (False, w\<lparr>heap := heap w @ [obj_at (heap w) (monacoOptions w)],
                     trace := trace w @ [ConsoleWarn path]\<rparr>)
         \<and> (\<forall>d. snapshot d (heap (snd (toggleEditorOption nv path w)))
                    (JRef (monacoOptions (snd (toggleEditorOption nv path w))))
                = snapshot d (heap w) (JRef (monacoOptions w)))"
proof -
  let ?h1 = "heap w @ [obj_at (heap w) (monacoOptions w)]"
  have g: "getAtPath path ?h1 (JRef (length (heap w)))
             = getAtPath path (heap w) (JRef (monacoOptions w))"
    using assms(2,3) by (rule getAtPath_copy)
  have c: "computeNewOptions nv path w = (Inl e, w\<lparr>heap := ?h1\<rparr>)"
    using assms(4) by (auto simp: computeNewOptions_def Let_def g)
  have r: "toggleEditorOption nv path w =
           (False, w\<lparr>heap := ?h1, trace := trace w @ [ConsoleWarn path]\<rparr>)"
    using assms(1) c by (simp add: toggleEditorOption_def emit_def)
  have "ref_ok (heap w) (JRef (monacoOptions w))"
    using assms(3) by (simp add: ref_ok_def)
  then have "snapshot d ?h1 (JRef (monacoOptions w)) = snapshot d (heap w) (JRef (monacoOptions w))" for d
    using assms(2) by (simp add: snapshot_append)
  with r show ?thesis by simp
qed

text \<open>
  Claim C4, witness: the path \<open>no.such.option\<close> on the constructed component.
\<close>

theorem toggleEditorOption_unresolved_path_witness:
  "closed_store (heap (constructed (Some [(main, Some plain_editor)])))
   \<and> getAtPath ''no.such.option'' (heap (constructed (Some [(main, Some plain_editor)])))
        (JRef (monacoOptions (constructed (Some [(main, Some plain_editor)]))))
       = Inl UnresolvedOptionPath
   \<and> fst (toggleEditorOption Map.empty ''no.such.option''
            (constructed (Some [(main, Some plain_editor)]))) = False
   \<and> trace (snd (toggleEditorOption Map.empty ''no.such.option''
            (constructed (Some [(main, Some plain_editor)])))) = [ConsoleWarn ''no.such.option'']
   \<and> monacoOptions (snd (toggleEditorOption Map.empty ''no.such.option''
            (constructed (Some [(main, Some plain_editor)])))) = 0"
proof -
  let ?w = "constructed (Some [(main, Some plain_editor)])"
  have e: "editors ?w = Some [(main, Some plain_editor)]" by (simp add: constructed_def)
  have c: "closed_store (heap ?w)"
    by (simp add: constructed_def closed_store_def module_store_def ref_ok_def)
  have l: "monacoOptions ?w < length (heap ?w)"
    by (simp add: constructed_def module_store_def defaultMonacoOptions_def)
  have g: "getAtPath ''no.such.option'' (heap ?w) (JRef (monacoOptions ?w)) = Inl UnresolvedOptionPath"
    by (simp add: eval_defs)
  then have d: "getAtPath ''no.such.option'' (heap ?w) (JRef (monacoOptions ?w)) = Inl UnresolvedOptionPath
         \<or> (\<exists>v. getAtPath ''no.such.option'' (heap ?w) (JRef (monacoOptions ?w)) = Inr v
                 \<and> toggleMonaco Map.empty v = Inl UnresolvedOptionPath)"
    by simp
  have t: "trace ?w = []" and m: "monacoOptions ?w = 0"
    by (simp_all add: constructed_def defaultMonacoOptions_def)
  show ?thesis
    using toggleEditorOption_unresolved_path [OF e c l d] c g by (simp add: t m)
qed


text \<open>
  Claim C5. With the two editors \<open>main\<close> and \<open>renderer\<close> registered and the options
  as the module defines them (\<open>minimap.enabled = false\<close>, \<open>wordWrap = 'on'\<close>),
  \<open>toggleEditorOption('minimap.enabled')\<close> returns \<open>true\<close>; \<open>main\<close> and then
  \<open>renderer\<close> receive \<open>updateOptions\<close> with the new options object, and only after
  both does \<open>setState\<close> publish it; the new options object reads
  \<open>{minimap: {enabled: true}, wordWrap: 'on'}\<close>.
\<close>

theorem toggleEditorOption_minimap_scenario:
  assumes "heap w = module_store"
    and "monacoOptions w = defaultMonacoOptions"
    and "editors w = Some [(main, Some e1), (renderer, Some e2)]"
    and "\<not> updateOptions_throws e1" and "\<not> updateOptions_throws e2"
  shows "toggleEditorOption nv ''minimap.enabled'' w =
           (True,
            w\<lparr>heap := [[(''minimap'', JRef 1), (''wordWrap'', JStr ''on'')],
                       [(''enabled'', JBool False)],
                       [(''minimap'', JRef 3), (''wordWrap'', JStr ''on'')],
                       [(''enabled'', JBool True)]],
              monacoOptions := 2,
              trace := trace w @ [UpdateOptions main 2, UpdateOptions renderer 2, SetState 2]\<rparr>)
         \<and> snapshot 2 (heap (snd (toggleEditorOption nv ''minimap.enabled'' w))) (JRef 2)
             = TObj [(''minimap'', TObj [(''enabled'', TBool True)]), (''wordWrap'', TStr ''on'')]"
proof -
  let ?h = "[[(''minimap'', JRef 1), (''wordWrap'', JStr ''on'')],
             [(''enabled'', JBool False)],
             [(''minimap'', JRef 3), (''wordWrap'', JStr ''on'')],
             [(''enabled'', JBool True)]]"
  have c: "computeNewOptions nv ''minimap.enabled'' w = (Inr 2, w\<lparr>heap := ?h\<rparr>)"
    using assms(1,2)
    by (simp add: computeNewOptions_def getAtPath_def setAtPath_def module_store_def
          defaultMonacoOptions_def obj_at_def)
  have r: "toggleEditorOption nv ''minimap.enabled'' w =
           (True, w\<lparr>heap := ?h, monacoOptions := 2,
              trace := trace w @ [UpdateOptions main 2, UpdateOptions renderer 2, SetState 2]\<rparr>)"
    using assms(3,4,5) c by (simp add: toggleEditorOption_def emit_def)
  have s: "snapshot 2 ?h (JRef 2)
             = TObj [(''minimap'', TObj [(''enabled'', TBool True)]), (''wordWrap'', TStr ''on'')]"
    by (simp add: numeral_2_eq_2 obj_at_def)
  from r s show ?thesis by simp
qed

text \<open>
  Claim C5, witness: two editors that do not throw.
\<close>

theorem toggleEditorOption_minimap_scenario_witness:
  "fst (toggleEditorOption Map.empty ''minimap.enabled''
          (constructed (Some [(main, Some plain_editor), (renderer, Some undo_editor)]))) = True
   \<and> trace (snd (toggleEditorOption Map.empty ''minimap.enabled''
          (constructed (Some [(main, Some plain_editor), (renderer, Some undo_editor)]))))
       = [UpdateOptions main 2, UpdateOptions renderer 2, SetState 2]
   \<and> snapshot 2 (heap (snd (toggleEditorOption Map.empty ''minimap.enabled''
          (constructed (Some [(main, Some plain_editor), (renderer, Some undo_editor)]))))) (JRef 2)
       = TObj [(''minimap'', TObj [(''enabled'', TBool True)]), (''wordWrap'', TStr ''on'')]"
proof -
  let ?w = "constructed (Some [(main, Some plain_editor), (renderer, Some undo_editor)])"
  have h: "heap ?w = module_store" and m: "monacoOptions ?w = defaultMonacoOptions"
    and e: "editors ?w = Some [(main, Some plain_editor), (renderer, Some undo_editor)]"
    and t: "trace ?w = []"
    by (simp_all add: constructed_def)
  have p: "\<not> updateOptions_throws plain_editor" by (simp add: plain_editor_def)
  have u: "\<not> updateOptions_throws undo_editor" by (simp add: undo_editor_def)
  show ?thesis
    using toggleEditorOption_minimap_scenario [OF h m e p u, of Map.empty]
    by (simp add: t numeral_2_eq_2 obj_at_def)
qed

text \<open>
  Claim C10. Registry entries that are \<open>null\<close> are skipped: when the new options are
  computed and no mounted editor throws, \<open>toggleEditorOption\<close> returns \<open>true\<close>, the
  calls of \<open>updateOptions\<close> it made are exactly those on the mounted editors, in
  registry order, followed by \<open>setState\<close>, and no call was made for a pane whose
  entry is \<open>null\<close>.
\<close>

theorem toggleEditorOption_skips_unmounted:
  assumes "editors w = Some es"
    and "computeNewOptions nv path w = (Inr n, w1)"
    and "\<forall>k\<in>set (map fst es). \<forall>ed. map_of es k = Some (Some ed) \<longrightarrow> \<not> updateOptions_throws ed"
  shows "toggleEditorOption nv path w =
           (True, w1\<lparr>monacoOptions := n,
                      trace := trace w @ map (\<lambda>k. UpdateOptions k n) (filter (mounted es) (map fst es))
                                 @ [SetState n]\<rparr>)
         \<and> (\<forall>k a. map_of es k = Some None \<longrightarrow>
               UpdateOptions k a \<notin> set (drop (length (trace w))
                                          (trace (snd (toggleEditorOption nv path w)))))"
proof -
  from assms(2) have t: "trace w1 = trace w" by (auto dest: computeNewOptions_frame)
  have l: "forEach_key es n (map fst es) w1 =
     (None, w1\<lparr>trace := trace w1 @ map (\<lambda>k. UpdateOptions k n) (filter (mounted es) (map fst es))\<rparr>)"
    using assms(3) by (rule forEach_key_ok)
  have r: "toggleEditorOption nv path w =
           (True, w1\<lparr>monacoOptions := n,
                      trace := trace w @ map (\<lambda>k. UpdateOptions k n) (filter (mounted es) (map fst es))
                                 @ [SetState n]\<rparr>)"
    using assms(1,2) l t by (simp add: toggleEditorOption_def emit_def)
  have "UpdateOptions k a \<notin> set (map (\<lambda>k. UpdateOptions k n) (filter (mounted es) (map fst es)) @ [SetState n])"
    if "map_of es k = Some None" for k a
    using that by (auto simp: mounted_def)
  with r show ?thesis by simp
qed

text \<open>
  Claim C10, witness: \<open>renderer\<close> is registered but not mounted.
\<close>

theorem toggleEditorOption_skips_unmounted_witness:
  "toggleEditorOption Map.empty ''minimap.enabled''
     (constructed (Some [(main, Some plain_editor), (renderer, None), (html, Some plain_editor)]))
   = (True,
      (constructed (Some [(main, Some plain_editor), (renderer, None), (html, Some plain_editor)]))
        \<lparr>heap := [[(''minimap'', JRef 1), (''wordWrap'', JStr ''on'')],
                  [(''enabled'', JBool False)],
                  [(''minimap'', JRef 3), (''wordWrap'', JStr ''on'')],
                  [(''enabled'', JBool True)]],
         monacoOptions := 2,
         trace := [UpdateOptions main 2, UpdateOptions html 2, SetState 2]\<rparr>)
   \<and> UpdateOptions renderer 2 \<notin> set (trace (snd (toggleEditorOption Map.empty ''minimap.enabled''
     (constructed (Some [(main, Some plain_editor), (renderer, None), (html, Some plain_editor)])))))"
proof -
  let ?es = "[(main, Some plain_editor), (renderer, None), (html, Some plain_editor)]"
  let ?w = "constructed (Some ?es)"
  let ?w1 = "?w\<lparr>heap := [[(''minimap'', JRef 1), (''wordWrap'', JStr ''on'')],
                  [(''enabled'', JBool False)],
                  [(''minimap'', JRef 3), (''wordWrap'', JStr ''on'')],
                  [(''enabled'', JBool True)]]\<rparr>"
  have e: "editors ?w = Some ?es" and t: "trace ?w = []" by (simp_all add: constructed_def)
  have c: "computeNewOptions Map.empty ''minimap.enabled'' ?w = (Inr 2, ?w1)"
    by (simp add: eval_defs)
  have a: "\<forall>k\<in>set (map fst ?es). \<forall>ed. map_of ?es k = Some (Some ed) \<longrightarrow> \<not> updateOptions_throws ed"
    by (simp add: plain_editor_def)
  have m: "mounted ?es main" "\<not> mounted ?es renderer" "mounted ?es html"
    by (simp_all add: mounted_def)
  have n: "map_of ?es renderer = Some None" by simp
  show ?thesis
    using toggleEditorOption_skips_unmounted [OF e c a] n by (simp add: t m)
qed

subsection \<open>loadMonaco\<close>

lemma loader_calls_emit:
  "loader_calls (emit e w) = loader_calls w + (if e = LoaderCall then 1 else 0)"
  by (simp add: loader_calls_def emit_def)

lemma loadMonaco_rest_calls: "loader_calls (loadMonaco_rest monaco w) = loader_calls w"
  by (simp add: loadMonaco_rest_def Let_def loader_calls_def emit_def)

lemma loadMonaco_rest_caches: "app_monaco (loadMonaco_rest monaco w) \<noteq> None"
  by (simp add: loadMonaco_rest_def Let_def emit_def)

lemma loadMonaco_rest_keeps:
  "app_monaco w \<noteq> None \<Longrightarrow> app_monaco (loadMonaco_rest monaco w) = app_monaco w"
  by (simp add: loadMonaco_rest_def Let_def emit_def)

lemma loader_calls_flight: "loader_calls (w\<lparr>loads_in_flight := k\<rparr>) = loader_calls w"
  by (simp add: loader_calls_def)

lemma cached_turn:
  assumes "app_monaco w \<noteq> None"
  shows "loader_calls (run [t] w) = loader_calls w \<and> app_monaco (run [t] w) = app_monaco w"
proof (cases t)
  case CallLoadMonaco
  with assms show ?thesis
    by (auto simp: loadMonaco_def loadMonaco_rest_calls loadMonaco_rest_keeps)
next
  case (LoaderResolves monaco)
  with assms show ?thesis
    by (simp add: loader_resolves_def loadMonaco_rest_calls loadMonaco_rest_keeps loader_calls_flight)
next
  case LoaderRejects
  then show ?thesis by (simp add: loader_rejects_def loader_calls_def)
qed

lemma cached_run:
  "app_monaco w \<noteq> None \<Longrightarrow>
   loader_calls (run ts w) = loader_calls w \<and> app_monaco (run ts w) = app_monaco w"
proof (induction ts arbitrary: w)
  case Nil
  then show ?case by simp
next
  case (Cons t ts)
  from Cons.prems have s: "loader_calls (run [t] w) = loader_calls w \<and> app_monaco (run [t] w) = app_monaco w"
    by (rule cached_turn)
  with Cons.prems have "app_monaco (run [t] w) \<noteq> None" by simp
  then have "loader_calls (run ts (run [t] w)) = loader_calls (run [t] w)
      \<and> app_monaco (run ts (run [t] w)) = app_monaco (run [t] w)"
    by (rule Cons.IH)
  moreover have "run (t # ts) w = run ts (run [t] w)" by (cases t) simp_all
  ultimately show ?case using s by simp
qed

lemma uncached_calls:
  "app_monaco w = None \<Longrightarrow>
   loader_calls (run (replicate n CallLoadMonaco) w) = loader_calls w + n
   \<and> app_monaco (run (replicate n CallLoadMonaco) w) = None"
proof (induction n arbitrary: w)
  case 0
  then show ?case by simp
next
  case (Suc n)
  from Suc.prems have a: "app_monaco (loadMonaco w) = None"
    and c: "loader_calls (loadMonaco w) = loader_calls w + 1"
    by (simp_all add: loadMonaco_def emit_def loader_calls_def)
  from Suc.IH [OF a] c show ?case by simp
qed

text \<open>
  Claim C7, as stated, fails: a second \<open>loadMonaco\<close> call made while the first is
  suspended at its \<open>await\<close> finds \<open>app.monaco\<close> still unset and calls the loader
  again.
\<close>

theorem loadMonaco_twice_in_flight:
  "app_monaco (run [CallLoadMonaco] (constructed None)) = None
   \<and> loads_in_flight (run [CallLoadMonaco] (constructed None)) = 1
   \<and> loader_calls (run [CallLoadMonaco, CallLoadMonaco] (constructed None)) = 2"
  by (simp add: loadMonaco_def constructed_def emit_def loader_calls_def)

lemma run_append: "run (ts @ us) w = run us (run ts w)"
  by (induction ts w rule: run.induct) simp_all

lemma loadMonaco_cached:
  "app_monaco w = Some m \<Longrightarrow>
   st_monaco (loadMonaco w) = Some m \<and> app_monaco (loadMonaco w) = Some m
   \<and> trace (loadMonaco w) = trace w @ [ActivateTheme m]
   \<and> loads_in_flight (loadMonaco w) = loads_in_flight w"
  by (simp add: loadMonaco_def loadMonaco_rest_def Let_def emit_def)

text \<open>
  Claim C7, amended. Once \<open>app.monaco\<close> is set, no later turn calls the loader and the
  cached engine is never replaced; a \<open>loadMonaco\<close> call made then, at once or after any
  further turns, takes the cached engine: it puts it into the component's state and
  activates the theme on it, and suspends nothing. The first load that resolves sets
  \<open>app.monaco\<close>. Calls made before that do not share a load: each of them calls the
  loader.
\<close>

theorem loadMonaco_cached_no_reload:
  "(app_monaco w \<noteq> None \<longrightarrow>
      loader_calls (run ts w) = loader_calls w \<and> app_monaco (run ts w) = app_monaco w)
   \<and> (app_monaco w = Some m \<longrightarrow>
      st_monaco (loadMonaco w) = Some m \<and> app_monaco (loadMonaco w) = Some m
      \<and> trace (loadMonaco w) = trace w @ [ActivateTheme m]
      \<and> loads_in_flight (loadMonaco w) = loads_in_flight w)
   \<and> (app_monaco w = Some m \<longrightarrow>
      st_monaco (run (ts @ [CallLoadMonaco]) w) = Some m
      \<and> trace (run (ts @ [CallLoadMonaco]) w) = trace (run ts w) @ [ActivateTheme m])
   \<and> (0 < loads_in_flight w \<longrightarrow> app_monaco (loader_resolves monaco w) \<noteq> None)
   \<and> (app_monaco w = None \<longrightarrow>
      loader_calls (run (replicate n CallLoadMonaco) w) = loader_calls w + n)"
proof (intro conjI impI)
  assume "app_monaco w \<noteq> None"
  then have "loader_calls (run ts w) = loader_calls w \<and> app_monaco (run ts w) = app_monaco w"
    by (rule cached_run)
  then show "loader_calls (run ts w) = loader_calls w" and "app_monaco (run ts w) = app_monaco w"
    by simp_all
next
  assume a: "app_monaco w = Some m"
  from loadMonaco_cached [OF a]
  show "st_monaco (loadMonaco w) = Some m" and "app_monaco (loadMonaco w) = Some m"
    and "trace (loadMonaco w) = trace w @ [ActivateTheme m]"
    and "loads_in_flight (loadMonaco w) = loads_in_flight w"
    by simp_all
next
  assume a: "app_monaco w = Some m"
  then have "app_monaco w \<noteq> None" by simp
  then have "app_monaco (run ts w) = app_monaco w" by (simp add: cached_run)
  with a have c: "app_monaco (run ts w) = Some m" by simp
  have r: "run (ts @ [CallLoadMonaco]) w = loadMonaco (run ts w)" by (simp add: run_append)
  from loadMonaco_cached [OF c]
  show "st_monaco (run (ts @ [CallLoadMonaco]) w) = Some m"
    and "trace (run (ts @ [CallLoadMonaco]) w) = trace (run ts w) @ [ActivateTheme m]"
    by (simp_all add: r)
next
  assume "0 < loads_in_flight w"
  then show "app_monaco (loader_resolves monaco w) \<noteq> None"
    by (simp add: loader_resolves_def loadMonaco_rest_caches)
next
  assume "app_monaco w = None"
  then show "loader_calls (run (replicate n CallLoadMonaco) w) = loader_calls w + n"
    by (simp add: uncached_calls)
qed

text \<open>
  Claim C7, witness: calls after a resolved load (no loader call, the cached engine is
  put into the state and its theme activated), and three calls before any load resolved.
\<close>

theorem loadMonaco_cached_no_reload_witness:
  "app_monaco (run [CallLoadMonaco, LoaderResolves (Engine 7)] (constructed None)) = Some (Engine 7)
   \<and> loader_calls (run [CallLoadMonaco, LoaderResolves (Engine 7)] (constructed None)) = 1
   \<and> loader_calls (run [CallLoadMonaco, CallLoadMonaco]
        (run [CallLoadMonaco, LoaderResolves (Engine 7)] (constructed None))) = 1
   \<and> st_monaco (loadMonaco
        (run [CallLoadMonaco, LoaderResolves (Engine 7)] (constructed None))) = Some (Engine 7)
   \<and> trace (loadMonaco
        (run [CallLoadMonaco, LoaderResolves (Engine 7)] (constructed None)))
       = [LoaderCall, ActivateTheme (Engine 7), ActivateTheme (Engine 7)]
   \<and> st_monaco (run ([LoaderRejects] @ [CallLoadMonaco])
        (run [CallLoadMonaco, LoaderResolves (Engine 7)] (constructed None))) = Some (Engine 7)
   \<and> 0 < loads_in_flight (run [CallLoadMonaco] (constructed None))
   \<and> app_monaco (loader_resolves (Engine 7) (run [CallLoadMonaco] (constructed None))) \<noteq> None
   \<and> app_monaco (constructed None) = None
   \<and> loader_calls (run (replicate 3 CallLoadMonaco) (constructed None)) = 3"
proof -
  let ?w = "run [CallLoadMonaco, LoaderResolves (Engine 7)] (constructed None)"
  let ?v = "run [CallLoadMonaco] (constructed None)"
  have a: "app_monaco ?w = Some (Engine 7)" and c: "loader_calls ?w = 1"
    and t: "trace ?w = [LoaderCall, ActivateTheme (Engine 7)]"
    by (simp_all add: loadMonaco_def loader_resolves_def loadMonaco_rest_def constructed_def
          emit_def loader_calls_def)
  have f: "0 < loads_in_flight ?v"
    by (simp add: loadMonaco_def constructed_def emit_def)
  have n: "app_monaco (constructed None) = None" and z: "loader_calls (constructed None) = 0"
    by (simp_all add: constructed_def loader_calls_def)
  from a have a': "app_monaco ?w \<noteq> None" by simp
  note cached = loadMonaco_cached_no_reload
        [where w = ?w and ts = "[CallLoadMonaco, CallLoadMonaco]" and m = "Engine 7"
           and monaco = "Engine 7" and n = 0]
  note later = loadMonaco_cached_no_reload
        [where w = ?w and ts = "[LoaderRejects]" and m = "Engine 7"
           and monaco = "Engine 7" and n = 0]
  note resolve = loadMonaco_cached_no_reload
        [where w = ?v and ts = "[]" and m = "Engine 7" and monaco = "Engine 7" and n = 0]
  note before = loadMonaco_cached_no_reload
        [where w = "constructed None" and ts = "[]" and m = "Engine 7"
           and monaco = "Engine 7" and n = 3]
  from cached a a' c t have
    "loader_calls (run [CallLoadMonaco, CallLoadMonaco] ?w) = 1"
    "st_monaco (loadMonaco ?w) = Some (Engine 7)"
    "trace (loadMonaco ?w) = [LoaderCall, ActivateTheme (Engine 7), ActivateTheme (Engine 7)]"
    by simp_all
  moreover from later a have
    "st_monaco (run ([LoaderRejects] @ [CallLoadMonaco]) ?w) = Some (Engine 7)"
    by blast
  moreover from resolve f have "app_monaco (loader_resolves (Engine 7) ?v) \<noteq> None"
    by blast
  moreover from before n z have
    "loader_calls (run (replicate 3 CallLoadMonaco) (constructed None)) = 3"
    by simp
  ultimately show ?thesis using a c f n by blast
qed

subsection \<open>The layout reaction\<close>

lemma elapse_idle:
  "pending s = None \<Longrightarrow> elapse t s = s\<lparr>clock := max (clock s) t\<rparr>"
  by (simp add: elapse_def)

lemma elapse_early:
  "pending s = Some due \<Longrightarrow> t < due \<Longrightarrow> elapse t s = s\<lparr>clock := max (clock s) t\<rparr>"
  by (simp add: elapse_def)

lemma elapse_due:
  "pending s = Some due \<Longrightarrow> due \<le> t \<Longrightarrow>
   elapse t s = s\<lparr>clock := max (clock s) t, pending := None,
                   written := written s @ [mosaicArrangement s]\<rparr>"
  by (simp add: elapse_def)

lemma onChange_live:
  "reaction_live s \<Longrightarrow>
   onChange delay a s =
     s\<lparr>mosaicArrangement := a, pending := Some (clock s + delay),
       cancelled := (case pending s of None \<Rightarrow> cancelled s | Some due \<Rightarrow> cancelled s + 1)\<rparr>"
  by (simp add: onChange_def updateEditorLayout_def Let_def split: option.splits)

text \<open>
  Claim C8. Two arrangement changes at times \<open>t1 \<le> t2\<close> with \<open>t2\<close> within the settle
  delay of \<open>t1\<close>: the write scheduled by the first change is cancelled, nothing is
  written before the delay has elapsed after the second change, and once it has, exactly
  one write has been made, holding the second arrangement.
\<close>

theorem two_changes_one_write:
  assumes "reaction_live s" and "pending s = None"
    and "clock s \<le> t1" and "t1 \<le> t2" and "t2 < t1 + delay" and "t2 + delay \<le> t3"
  shows "written (elapse t3 (onChange delay a2 (elapse t2 (onChange delay a1 (elapse t1 s)))))
           = written s @ [a2]
         \<and> cancelled (elapse t3 (onChange delay a2 (elapse t2 (onChange delay a1 (elapse t1 s)))))
           = cancelled s + 1
         \<and> pending (elapse t3 (onChange delay a2 (elapse t2 (onChange delay a1 (elapse t1 s)))))
           = None
         \<and> (\<forall>t. t < t2 + delay \<longrightarrow>
               written (elapse t (onChange delay a2 (elapse t2 (onChange delay a1 (elapse t1 s)))))
               = written s)"
proof -
  define s0 where "s0 = elapse t1 s"
  define s1 where "s1 = onChange delay a1 s0"
  define s1' where "s1' = elapse t2 s1"
  define s2 where "s2 = onChange delay a2 s1'"
  have e0: "s0 = s\<lparr>clock := t1\<rparr>"
    using assms(2,3) by (simp add: s0_def elapse_idle max_def)
  have e1: "s1 = s\<lparr>mosaicArrangement := a1, clock := t1, pending := Some (t1 + delay)\<rparr>"
    using assms(1,2) by (simp add: s1_def e0 onChange_live)
  have "pending s1 = Some (t1 + delay)" by (simp add: e1)
  then have "s1' = s1\<lparr>clock := max (clock s1) t2\<rparr>"
    unfolding s1'_def using assms(5) by (rule elapse_early)
  then have e1': "s1' = s\<lparr>mosaicArrangement := a1, clock := t2, pending := Some (t1 + delay)\<rparr>"
    using assms(4) by (simp add: e1 max_def)
  have e2: "s2 = s\<lparr>mosaicArrangement := a2, clock := t2, pending := Some (t2 + delay),
                    cancelled := cancelled s + 1\<rparr>"
    using assms(1) by (simp add: s2_def e1' onChange_live)
  have p2: "pending s2 = Some (t2 + delay)" by (simp add: e2)
  from p2 assms(6) have "elapse t3 s2 = s2\<lparr>clock := max (clock s2) t3, pending := None,
                   written := written s2 @ [mosaicArrangement s2]\<rparr>"
    by (rule elapse_due)
  then have e3: "written (elapse t3 s2) = written s @ [a2]"
    and c3: "cancelled (elapse t3 s2) = cancelled s + 1"
    and p3: "pending (elapse t3 s2) = None"
    by (simp_all add: e2)
  have e: "written (elapse t s2) = written s" if "t < t2 + delay" for t
    using elapse_early [OF p2 that] by (simp add: e2)
  from e3 c3 p3 e show ?thesis
    by (simp add: s2_def s1'_def s1_def s0_def)
qed

text \<open>
  Claim C8, witness: changes at 200 and 400 with a delay of 300, observed at 700.
\<close>

theorem two_changes_one_write_witness:
  "written (elapse 700 (onChange 300 (Some renderer) (elapse 400 (onChange 300 (Some main) (elapse 200
      \<lparr>mosaicArrangement = None, reaction_live = True, clock = 0, pending = None,
       cancelled = 0, written = []\<rparr>))))) = [Some renderer]
   \<and> cancelled (elapse 700 (onChange 300 (Some renderer) (elapse 400 (onChange 300 (Some main) (elapse 200
      \<lparr>mosaicArrangement = None, reaction_live = True, clock = 0, pending = None,
       cancelled = 0, written = []\<rparr>))))) = 1"
proof -
  let ?s = "\<lparr>mosaicArrangement = None :: EditorId option, reaction_live = True, clock = 0,
             pending = None, cancelled = 0, written = []\<rparr>"
  have "reaction_live ?s" "pending ?s = None" "clock ?s \<le> 200" "(200::nat) \<le> 400"
    "(400::nat) < 200 + 300" "(400::nat) + 300 \<le> 700"
    by simp_all
  from two_changes_one_write [OF this, where ?a1.0 = "Some main" and ?a2.0 = "Some renderer"]
  show ?thesis by simp
qed

end
